theory Spec2Isabelle
  imports Complex_Main
begin

section \<open>Data model of the AvidaGP virtual CPU\<close>

text \<open>
  The embedding follows \<^verbatim>\<open>src/hardware/AvidaGP.h\<close> (class \<^verbatim>\<open>emp::AvidaGP\<close>) and the
  bounds-checked \<^verbatim>\<open>emp::array\<close> of \<^verbatim>\<open>base/array.h\<close>, with assertions enabled.

  \<^item> \<^verbatim>\<open>double\<close> values are modelled as \<^typ>\<open>real\<close>; no theorem below depends on rounding.
  \<^item> \<^verbatim>\<open>size_t\<close> positions and counters are \<^typ>\<open>nat\<close>. The conversion of an \<^verbatim>\<open>int\<close>
    argument to \<^verbatim>\<open>size_t\<close> and the increment of a scope number wrap modulo \<open>2 ^ 64\<close>,
    which is where a negative argument is felt. Genome positions and the error counter
    stay far below \<open>2 ^ 64\<close> and are not wrapped.
  \<^item> An \<^verbatim>\<open>emp::array\<close> of 16 cells is a function from the index; every access goes
    through the bounds assertion of \<^verbatim>\<open>operator[]\<close>, so only cells below 16 are ever
    read or written.
  \<^item> An \<^verbatim>\<open>emp::vector\<close> is a list whose last element is \<^verbatim>\<open>back()\<close>.
  \<^item> A failed \<^verbatim>\<open>emp_assert\<close> and an access outside a vector are error results.
\<close>

definition REGS :: nat where
  "REGS = 16"

definition STACK_CAP :: nat where
  "STACK_CAP = 16"

datatype InstID =
    Inc | Dec | Not_op | SetReg | Add | Sub | Mult | Div | Mod
  | TestEqu | TestNEqu | TestLess
  | If_op | While | Countdown | Break | Scope | Define | Call
  | Push | Pop | Input | Output | CopyVal | ScopeReg
  | Unknown

datatype ScopeType = ROOT | BASIC | LOOP | FUNCTION

datatype Instruction = Instruction (inst_id: InstID) (arg0: int) (arg1: int) (arg2: int)

datatype ScopeInfo = ScopeInfo (scope: nat) (stype: ScopeType) (start_pos: nat)

datatype RegBackup = RegBackup (rb_scope: nat) (reg_id: nat) (rb_value: real)

record vm =
  genome :: "Instruction list"
  regs :: "nat \<Rightarrow> real"
  inputs :: "nat \<Rightarrow> real"
  outputs :: "nat \<Rightarrow> real"
  stacks :: "nat \<Rightarrow> real list"
  fun_starts :: "nat \<Rightarrow> int"
  inst_ptr :: nat
  scope_stack :: "ScopeInfo list"
  reg_stack :: "RegBackup list"
  call_stack :: "nat list"
  errors :: nat

datatype error = AssertFailed | VectorRange

section \<open>Results, conversions and container accesses\<close>

definition bindE :: "error + 'a \<Rightarrow> ('a \<Rightarrow> error + 'b) \<Rightarrow> error + 'b" where
  "bindE m f = (case m of Inl e \<Rightarrow> Inl e | Inr x \<Rightarrow> f x)"

text \<open>Conversion of an \<^verbatim>\<open>int\<close> to \<^verbatim>\<open>size_t\<close> (64 bits).\<close>

definition size_t_of_int :: "int \<Rightarrow> nat" where
  "size_t_of_int i = nat (i mod 2 ^ 64)"

text \<open>\<^verbatim>\<open>scope++\<close> on a \<^verbatim>\<open>size_t\<close>.\<close>

definition size_t_inc :: "nat \<Rightarrow> nat" where
  "size_t_inc n = (n + 1) mod 2 ^ 64"

text \<open>\<^verbatim>\<open>emp::array::operator[]\<close>: \<^verbatim>\<open>emp_assert(pos < (int) N, pos)\<close>, then the cell.\<close>

definition at_pos :: "nat \<Rightarrow> error + nat" where
  "at_pos pos = (if pos < REGS then Inr pos else Inl AssertFailed)"

definition idx :: "int \<Rightarrow> error + nat" where
  "idx a = at_pos (size_t_of_int a)"

text \<open>
  Modelled from the spec: \<^verbatim>\<open>emp::vector\<close> (\<^verbatim>\<open>base/vector.h\<close>) is not among the sources.
  Section 7 of the specification lists an instruction position out of range as a contract
  violation (assertion); \<^verbatim>\<open>back()\<close> of an empty vector and an index at or beyond the size
  are therefore error results.
\<close>

definition vec_back :: "'a list \<Rightarrow> error + 'a" where
  "vec_back xs = (if xs = [] then Inl VectorRange else Inr (last xs))"

definition at_vec :: "'a list \<Rightarrow> nat \<Rightarrow> error + 'a" where
  "at_vec xs pos = (if pos < length xs then Inr (xs ! pos) else Inl VectorRange)"

lemma bindE_cong [fundef_cong]:
  "m = m' \<Longrightarrow> (\<And>x. m' = Inr x \<Longrightarrow> f x = f' x) \<Longrightarrow> bindE m f = bindE m' f'"
  by (cases m') (simp_all add: bindE_def)

lemma bindE_Inr_iff: "bindE m f = Inr y \<longleftrightarrow> (\<exists>x. m = Inr x \<and> f x = Inr y)"
  by (cases m) (simp_all add: bindE_def)

lemma bindE_simps [simp]: "bindE (Inl e) f = Inl e" "bindE (Inr x) f = f x"
  by (simp_all add: bindE_def)

section \<open>Auxiliary stacks\<close>

definition PopStack :: "nat \<Rightarrow> vm \<Rightarrow> error + (real \<times> vm)" where
  "PopStack ident s =
     bindE (at_pos ident) (\<lambda>i.
       if length (stacks s i) = 0 then Inr (0, s)
       else Inr (last (stacks s i), s\<lparr>stacks := (stacks s)(i := butlast (stacks s i))\<rparr>))"

definition PushStack :: "nat \<Rightarrow> real \<Rightarrow> vm \<Rightarrow> error + vm" where
  "PushStack ident v s =
     bindE (at_pos ident) (\<lambda>i.
       if length (stacks s i) \<ge> STACK_CAP then Inr s
       else Inr (s\<lparr>stacks := (stacks s)(i := stacks s i @ [v])\<rparr>))"

section \<open>The scope engine\<close>

definition CurScope :: "vm \<Rightarrow> error + nat" where
  "CurScope s = bindE (vec_back (scope_stack s)) (\<lambda>top. Inr (scope top))"

definition CurScopeType :: "vm \<Rightarrow> error + ScopeType" where
  "CurScopeType s = bindE (vec_back (scope_stack s)) (\<lambda>top. Inr (stype top))"

text \<open>The \<^verbatim>\<open>while\<close> loop of \<^verbatim>\<open>ExitScope\<close> that restores the backed-up registers.\<close>

function ExitScope_restore :: "vm \<Rightarrow> error + vm" where
  "ExitScope_restore s =
     (if reg_stack s = [] then Inr s
      else bindE (CurScope s) (\<lambda>cur.
        if rb_scope (last (reg_stack s)) = cur then
          bindE (at_pos (reg_id (last (reg_stack s)))) (\<lambda>i.
            ExitScope_restore
              (s\<lparr>regs := (regs s)(i := rb_value (last (reg_stack s))),
                 reg_stack := butlast (reg_stack s)\<rparr>))
        else Inr s))"
  by pat_completeness auto
termination
  by (relation "measure (\<lambda>s. length (reg_stack s))") auto

declare ExitScope_restore.simps [simp del]

definition ExitScope :: "vm \<Rightarrow> error + vm" where
  "ExitScope s =
     (if \<not> length (scope_stack s) > 1 then Inl AssertFailed
      else if \<not> length (scope_stack s) \<le> REGS then Inl AssertFailed
      else bindE (ExitScope_restore s) (\<lambda>s1.
        Inr (s1\<lparr>scope_stack := butlast (scope_stack s1)\<rparr>)))"

lemma ExitScope_restore_scope_stack:
  "ExitScope_restore s = Inr s' \<Longrightarrow> scope_stack s' = scope_stack s"
proof (induction s rule: ExitScope_restore.induct)
  case (1 s)
  note eq = ExitScope_restore.simps [of s]
  show ?case
  proof (cases "reg_stack s = []")
    case True
    with "1.prems" eq show ?thesis by simp
  next
    case False
    from "1.prems" False eq obtain cur where cur: "CurScope s = Inr cur"
      by (cases "CurScope s") simp_all
    show ?thesis
    proof (cases "rb_scope (last (reg_stack s)) = cur")
      case same: True
      from "1.prems" False cur same eq obtain i
        where i: "at_pos (reg_id (last (reg_stack s))) = Inr i"
        by (cases "at_pos (reg_id (last (reg_stack s)))") simp_all
      from "1.prems" False cur same i eq
      have "ExitScope_restore
              (s\<lparr>regs := (regs s)(i := rb_value (last (reg_stack s))),
                 reg_stack := butlast (reg_stack s)\<rparr>) = Inr s'"
        by simp
      from "1.IH" [OF False cur same i this] show ?thesis by simp
    next
      case False
      with "1.prems" \<open>reg_stack s \<noteq> []\<close> cur eq show ?thesis by simp
    qed
  qed
qed

lemma ExitScope_scope_stack:
  "ExitScope s = Inr s' \<Longrightarrow>
     scope_stack s' = butlast (scope_stack s) \<and> 1 < length (scope_stack s)
       \<and> length (scope_stack s) \<le> REGS"
  by (auto simp: ExitScope_def bindE_Inr_iff split: if_splits
           dest: ExitScope_restore_scope_stack)

text \<open>The \<^verbatim>\<open>while\<close> loop of \<^verbatim>\<open>ResetIP\<close>: forcibly exit all scopes except root.\<close>

function ResetIP_loop :: "vm \<Rightarrow> error + vm" where
  "ResetIP_loop s =
     (if length (scope_stack s) > 1 then bindE (ExitScope s) ResetIP_loop else Inr s)"
  by pat_completeness auto
termination
  by (relation "measure (\<lambda>s. length (scope_stack s))")
     (auto dest!: ExitScope_scope_stack)

declare ResetIP_loop.simps [simp del]

definition ResetIP :: "vm \<Rightarrow> error + vm" where
  "ResetIP s =
     bindE (ResetIP_loop (s\<lparr>inst_ptr := 0\<rparr>)) (\<lambda>s1. Inr (s1\<lparr>call_stack := []\<rparr>))"

text \<open>The body of the \<^verbatim>\<open>for\<close> loop of \<^verbatim>\<open>ResetHardware\<close> at index \<open>i\<close>.\<close>

definition ResetHardware_cell :: "nat \<Rightarrow> vm \<Rightarrow> vm" where
  "ResetHardware_cell i s =
     s\<lparr>regs := (regs s)(i := real i),
       inputs := (inputs s)(i := 0),
       outputs := (outputs s)(i := 0),
       stacks := (stacks s)(i := []),
       fun_starts := (fun_starts s)(i := - 1)\<rparr>"

definition ResetHardware :: "vm \<Rightarrow> error + vm" where
  "ResetHardware s = ResetIP ((fold ResetHardware_cell [0..<REGS] s)\<lparr>errors := 0\<rparr>)"

definition Reset :: "vm \<Rightarrow> error + vm" where
  "Reset s = ResetHardware (s\<lparr>genome := []\<rparr>)"

text \<open>
  The constructor: \<^verbatim>\<open>inst_ptr(0)\<close>, \<^verbatim>\<open>errors(0)\<close>, the root frame, then \<^verbatim>\<open>Reset()\<close>.
  The arrays are not initialised before \<^verbatim>\<open>Reset()\<close> writes all of their 16 cells; the
  model starts them at zero (empty, for the stacks).
\<close>

definition AvidaGP :: "error + vm" where
  "AvidaGP =
     Reset \<lparr>genome = [], regs = (\<lambda>_. 0), inputs = (\<lambda>_. 0), outputs = (\<lambda>_. 0),
            stacks = (\<lambda>_. []), fun_starts = (\<lambda>_. 0), inst_ptr = 0,
            scope_stack = [ScopeInfo 0 ROOT 0], reg_stack = [], call_stack = [],
            errors = 0\<rparr>"

text \<open>\<^verbatim>\<open>InstScope\<close>: the scope an instruction declares, or 0.\<close>

definition InstScope :: "Instruction \<Rightarrow> nat" where
  "InstScope inst =
     (case inst_id inst of
        If_op \<Rightarrow> size_t_of_int (arg1 inst + 1)
      | While \<Rightarrow> size_t_of_int (arg1 inst + 1)
      | Countdown \<Rightarrow> size_t_of_int (arg1 inst + 1)
      | Define \<Rightarrow> size_t_of_int (arg1 inst + 1)
      | Scope \<Rightarrow> size_t_of_int (arg0 inst + 1)
      | _ \<Rightarrow> 0)"

text \<open>The \<^verbatim>\<open>while\<close> loop of \<^verbatim>\<open>BypassScope\<close>; \<open>scp\<close> is the incremented scope.\<close>

function BypassScope_loop :: "nat \<Rightarrow> vm \<Rightarrow> vm" where
  "BypassScope_loop scp s =
     (if inst_ptr s + 1 < length (genome s) then
        (let s1 = s\<lparr>inst_ptr := inst_ptr s + 1\<rparr>;
             test_scope = InstScope (genome s1 ! inst_ptr s1)
         in if test_scope \<noteq> 0 \<and> test_scope \<le> scp
            then s1\<lparr>inst_ptr := inst_ptr s1 - 1\<rparr>
            else BypassScope_loop scp s1)
      else s)"
  by pat_completeness auto
termination
  by (relation "measure (\<lambda>(scp, s). length (genome s) - inst_ptr s)") auto

declare BypassScope_loop.simps [simp del]

definition BypassScope :: "nat \<Rightarrow> vm \<Rightarrow> error + vm" where
  "BypassScope scope0 s =
     (let scp = size_t_inc scope0 in
      bindE (CurScope s) (\<lambda>cur.
        if cur < scp then Inr s
        else bindE (ExitScope s) (\<lambda>s1. Inr (BypassScope_loop scp s1))))"

section \<open>The interpreter\<close>

lemma ResetIP_loop_length:
  "ResetIP_loop s = Inr s' \<Longrightarrow> length (scope_stack s') \<le> length (scope_stack s) \<and>
     (1 < length (scope_stack s) \<longrightarrow> length (scope_stack s') < length (scope_stack s))"
proof (induction s rule: ResetIP_loop.induct)
  case (1 s)
  note eq = ResetIP_loop.simps [of s]
  show ?case
  proof (cases "1 < length (scope_stack s)")
    case True
    with "1.prems" eq obtain s1 where s1: "ExitScope s = Inr s1"
      and r: "ResetIP_loop s1 = Inr s'"
      by (auto simp: bindE_Inr_iff)
    from ExitScope_scope_stack [OF s1] have "length (scope_stack s1) < length (scope_stack s)"
      by auto
    with "1.IH" [OF True s1 r] show ?thesis by simp
  next
    case False
    with "1.prems" eq show ?thesis by simp
  qed
qed

lemma ResetIP_measure:
  "ResetIP s = Inr s' \<Longrightarrow> call_stack s' = [] \<and>
     length (scope_stack s') \<le> length (scope_stack s) \<and>
     (1 < length (scope_stack s) \<longrightarrow> length (scope_stack s') < length (scope_stack s))"
proof -
  assume "ResetIP s = Inr s'"
  then obtain s1 where l: "ResetIP_loop (s\<lparr>inst_ptr := 0\<rparr>) = Inr s1"
    and s': "s' = s1\<lparr>call_stack := []\<rparr>"
    by (auto simp: ResetIP_def bindE_Inr_iff)
  from ResetIP_loop_length [OF l] s' show ?thesis by simp
qed


text \<open>
  \<^verbatim>\<open>UpdateScope\<close> and \<^verbatim>\<open>ProcessInst\<close> call each other: leaving a loop or a function
  re-dispatches \<^verbatim>\<open>genome[inst_ptr]\<close>. The first argument of \<open>UpdateScope\<close> is the
  \<^verbatim>\<open>size_t\<close> the caller's \<^verbatim>\<open>int\<close> converts to. The recursive call at the end passes
  the already incremented \<^verbatim>\<open>new_scope\<close>, which is then incremented again, as in the source.
\<close>

function UpdateScope :: "nat \<Rightarrow> ScopeType \<Rightarrow> vm \<Rightarrow> error + (bool \<times> vm)"
  and ProcessInst :: "Instruction \<Rightarrow> vm \<Rightarrow> error + vm"
where
  "UpdateScope new_scope0 ty s =
     bindE (vec_back (scope_stack s)) (\<lambda>top.
       let cur_scope = scope top; new_scope = size_t_inc new_scope0 in
       if new_scope > cur_scope then
         Inr (True, s\<lparr>scope_stack := scope_stack s @ [ScopeInfo new_scope ty (inst_ptr s)]\<rparr>)
       else if stype top = LOOP then
         bindE (ExitScope (s\<lparr>inst_ptr := start_pos top\<rparr>)) (\<lambda>s1.
         bindE (at_vec (genome s1) (inst_ptr s1)) (\<lambda>inst.
         bindE (ProcessInst inst s1) (\<lambda>s2. Inr (False, s2))))
       else if stype top = FUNCTION then
         bindE (vec_back (call_stack s)) (\<lambda>ret.
         bindE (if ret \<ge> length (genome s) then ResetIP (s\<lparr>inst_ptr := ret\<rparr>)
                else ExitScope (s\<lparr>inst_ptr := ret, call_stack := butlast (call_stack s)\<rparr>)) (\<lambda>s1.
         bindE (at_vec (genome s1) (inst_ptr s1)) (\<lambda>inst.
         bindE (ProcessInst inst s1) (\<lambda>s2. Inr (False, s2)))))
       else
         bindE (ExitScope s) (\<lambda>s1. UpdateScope new_scope ty s1))"
| "ProcessInst inst s =
     (case inst_id inst of
        Inc \<Rightarrow> bindE (idx (arg0 inst)) (\<lambda>a. Inr (s\<lparr>regs := (regs s)(a := regs s a + 1)\<rparr>))
      | Dec \<Rightarrow> bindE (idx (arg0 inst)) (\<lambda>a. Inr (s\<lparr>regs := (regs s)(a := regs s a - 1)\<rparr>))
      | Not_op \<Rightarrow> bindE (idx (arg0 inst)) (\<lambda>a.
          Inr (s\<lparr>regs := (regs s)(a := (if regs s a = 0 then 1 else 0))\<rparr>))
      | SetReg \<Rightarrow> bindE (idx (arg0 inst)) (\<lambda>a.
          Inr (s\<lparr>regs := (regs s)(a := of_int (arg1 inst))\<rparr>))
      | Add \<Rightarrow> bindE (idx (arg0 inst)) (\<lambda>a. bindE (idx (arg1 inst)) (\<lambda>b.
          bindE (idx (arg2 inst)) (\<lambda>c. Inr (s\<lparr>regs := (regs s)(c := regs s a + regs s b)\<rparr>))))
      | Sub \<Rightarrow> bindE (idx (arg0 inst)) (\<lambda>a. bindE (idx (arg1 inst)) (\<lambda>b.
          bindE (idx (arg2 inst)) (\<lambda>c. Inr (s\<lparr>regs := (regs s)(c := regs s a - regs s b)\<rparr>))))
      | Mult \<Rightarrow> bindE (idx (arg0 inst)) (\<lambda>a. bindE (idx (arg1 inst)) (\<lambda>b.
          bindE (idx (arg2 inst)) (\<lambda>c. Inr (s\<lparr>regs := (regs s)(c := regs s a * regs s b)\<rparr>))))
      | Div \<Rightarrow> bindE (idx (arg1 inst)) (\<lambda>b.
          let denom = regs s b in
          if denom = 0 then Inr (s\<lparr>errors := errors s + 1\<rparr>)
          else bindE (idx (arg0 inst)) (\<lambda>a. bindE (idx (arg2 inst)) (\<lambda>c.
            Inr (s\<lparr>regs := (regs s)(c := regs s a / denom)\<rparr>))))
      | Mod \<Rightarrow> bindE (idx (arg1 inst)) (\<lambda>b.
          let base = regs s b in
          if base = 0 then Inr (s\<lparr>errors := errors s + 1\<rparr>)
          else bindE (idx (arg0 inst)) (\<lambda>a. bindE (idx (arg2 inst)) (\<lambda>c.
            Inr (s\<lparr>regs := (regs s)(c := regs s a / base)\<rparr>))))
      | TestEqu \<Rightarrow> bindE (idx (arg0 inst)) (\<lambda>a. bindE (idx (arg1 inst)) (\<lambda>b.
          bindE (idx (arg2 inst)) (\<lambda>c.
            Inr (s\<lparr>regs := (regs s)(c := (if regs s a = regs s b then 1 else 0))\<rparr>))))
      | TestNEqu \<Rightarrow> bindE (idx (arg0 inst)) (\<lambda>a. bindE (idx (arg1 inst)) (\<lambda>b.
          bindE (idx (arg2 inst)) (\<lambda>c.
            Inr (s\<lparr>regs := (regs s)(c := (if regs s a \<noteq> regs s b then 1 else 0))\<rparr>))))
      | TestLess \<Rightarrow> bindE (idx (arg0 inst)) (\<lambda>a. bindE (idx (arg1 inst)) (\<lambda>b.
          bindE (idx (arg2 inst)) (\<lambda>c.
            Inr (s\<lparr>regs := (regs s)(c := (if regs s a < regs s b then 1 else 0))\<rparr>))))
      | If_op \<Rightarrow>
          bindE (UpdateScope (size_t_of_int (arg1 inst)) BASIC s) (\<lambda>(entered, s1).
            if \<not> entered then Inr s1
            else bindE (idx (arg0 inst)) (\<lambda>t.
              if regs s1 t = 0 then BypassScope (size_t_of_int (arg1 inst)) s1 else Inr s1))
      | While \<Rightarrow>
          bindE (UpdateScope (size_t_of_int (arg1 inst)) LOOP s) (\<lambda>(entered, s1).
            if \<not> entered then Inr s1
            else bindE (idx (arg0 inst)) (\<lambda>t.
              if regs s1 t = 0 then BypassScope (size_t_of_int (arg1 inst)) s1 else Inr s1))
      | Countdown \<Rightarrow>
          bindE (UpdateScope (size_t_of_int (arg1 inst)) LOOP s) (\<lambda>(entered, s1).
            if \<not> entered then Inr s1
            else bindE (idx (arg0 inst)) (\<lambda>t.
              if regs s1 t = 0 then BypassScope (size_t_of_int (arg1 inst)) s1
              else Inr (s1\<lparr>regs := (regs s1)(t := regs s1 t - 1)\<rparr>)))
      | Break \<Rightarrow> BypassScope (size_t_of_int (arg0 inst)) s
      | Scope \<Rightarrow>
          bindE (UpdateScope (size_t_of_int (arg0 inst)) BASIC s) (\<lambda>(entered, s1). Inr s1)
      | Define \<Rightarrow>
          bindE (UpdateScope (size_t_of_int (arg1 inst)) BASIC s) (\<lambda>(entered, s1).
            if \<not> entered then Inr s1
            else bindE (idx (arg0 inst)) (\<lambda>f.
              BypassScope (size_t_of_int (arg1 inst))
                (s1\<lparr>fun_starts := (fun_starts s1)(f := int (inst_ptr s1))\<rparr>)))
      | Call \<Rightarrow> bindE (idx (arg0 inst)) (\<lambda>f.
          let def_pos = size_t_of_int (fun_starts s f) in
          if def_pos \<ge> length (genome s) \<or> inst_id (genome s ! def_pos) \<noteq> Define then Inr s
          else
            let fun_scope = size_t_of_int (arg1 (genome s ! def_pos)) in
            bindE (UpdateScope fun_scope FUNCTION s) (\<lambda>(entered, s1).
              if \<not> entered then Inr s1
              else Inr (s1\<lparr>call_stack := call_stack s1 @ [inst_ptr s1 + 1],
                          inst_ptr := def_pos + 1\<rparr>)))
      | Push \<Rightarrow> bindE (idx (arg0 inst)) (\<lambda>a.
          PushStack (size_t_of_int (arg1 inst)) (regs s a) s)
      | Pop \<Rightarrow> bindE (idx (arg1 inst)) (\<lambda>b.
          bindE (PopStack (size_t_of_int (arg0 inst)) s) (\<lambda>(v, s1).
            Inr (s1\<lparr>regs := (regs s1)(b := v)\<rparr>)))
      | Input \<Rightarrow> bindE (idx (arg0 inst)) (\<lambda>a. bindE (idx (arg1 inst)) (\<lambda>b.
          Inr (s\<lparr>regs := (regs s)(b := inputs s a)\<rparr>)))
      | Output \<Rightarrow> bindE (idx (arg0 inst)) (\<lambda>a. bindE (idx (arg1 inst)) (\<lambda>b.
          Inr (s\<lparr>outputs := (outputs s)(b := regs s a)\<rparr>)))
      | CopyVal \<Rightarrow> bindE (idx (arg0 inst)) (\<lambda>a. bindE (idx (arg1 inst)) (\<lambda>b.
          Inr (s\<lparr>regs := (regs s)(b := regs s a)\<rparr>)))
      | ScopeReg \<Rightarrow> bindE (CurScope s) (\<lambda>cur. bindE (idx (arg0 inst)) (\<lambda>a.
          Inr (s\<lparr>reg_stack := reg_stack s @ [RegBackup cur (size_t_of_int (arg0 inst)) (regs s a)]\<rparr>)))
      | Unknown \<Rightarrow> Inl AssertFailed)"
  by pat_completeness auto


text \<open>
  Every nested call runs on a shorter scope stack, except the re-dispatch after the
  wrap of \<^verbatim>\<open>ResetIP\<close> on a stack that had one frame only: there the call stack has just
  been emptied, so that a second function return fails at \<^verbatim>\<open>call_stack.back()\<close>.
\<close>

termination
proof (relation "measure (\<lambda>x. case x of
      Inl (n, ty, s) \<Rightarrow> 4 * length (scope_stack s) + (if call_stack s = [] then 0 else 2)
    | Inr (inst, s) \<Rightarrow> 4 * length (scope_stack s) + (if call_stack s = [] then 0 else 2) + 1)",
    goal_cases)
  case 1
  show ?case by simp
next
  case (2 new_scope0 ty s top cs ns s1 inst)
  then show ?case by (auto dest!: ExitScope_scope_stack)
next
  case (3 new_scope0 ty s top cs ns ret s1 inst)
  then show ?case
    by (auto dest!: ExitScope_scope_stack ResetIP_measure simp: vec_back_def split: if_splits)
next
  case (4 new_scope0 ty s top cs ns s1)
  then show ?case by (auto dest!: ExitScope_scope_stack)
qed auto

declare UpdateScope.simps [simp del] ProcessInst.simps [simp del]

text \<open>\<^verbatim>\<open>SingleProcess\<close>: wrap if needed, dispatch \<^verbatim>\<open>genome[inst_ptr]\<close>, advance.\<close>

definition SingleProcess :: "vm \<Rightarrow> error + vm" where
  "SingleProcess s =
     bindE (if inst_ptr s \<ge> length (genome s) then ResetIP s else Inr s) (\<lambda>s1.
     bindE (at_vec (genome s1) (inst_ptr s1)) (\<lambda>inst.
     bindE (ProcessInst inst s1) (\<lambda>s2.
       Inr (s2\<lparr>inst_ptr := inst_ptr s2 + 1\<rparr>))))"

text \<open>\<^verbatim>\<open>Process(num_inst)\<close>: \<^verbatim>\<open>num_inst\<close> calls of \<^verbatim>\<open>SingleProcess\<close>.\<close>

fun Process :: "nat \<Rightarrow> vm \<Rightarrow> error + vm" where
  "Process 0 s = Inr s"
| "Process (Suc n) s = bindE (SingleProcess s) (Process n)"

section \<open>Genome accessors\<close>

definition SetInst :: "nat \<Rightarrow> Instruction \<Rightarrow> vm \<Rightarrow> error + vm" where
  "SetInst pos inst s =
     (if pos < length (genome s) then Inr (s\<lparr>genome := (genome s)[pos := inst]\<rparr>)
      else Inl VectorRange)"

definition SetGenome :: "Instruction list \<Rightarrow> vm \<Rightarrow> vm" where
  "SetGenome g s = s\<lparr>genome := g\<rparr>"

definition PushInst :: "Instruction \<Rightarrow> vm \<Rightarrow> vm" where
  "PushInst inst s = s\<lparr>genome := genome s @ [inst]\<rparr>"

definition GetReg :: "nat \<Rightarrow> vm \<Rightarrow> error + real" where
  "GetReg ident s = bindE (at_pos ident) (\<lambda>i. Inr (regs s i))"

section \<open>Running a genome on a fresh machine\<close>

text \<open>
  The scenarios of the specification start from a freshly constructed machine, install a
  genome with \<^verbatim>\<open>SetGenome\<close> and call \<^verbatim>\<open>Process\<close>; registers are read with \<^verbatim>\<open>GetReg\<close>.
\<close>

definition run :: "Instruction list \<Rightarrow> nat \<Rightarrow> error + vm" where
  "run g n = bindE AvidaGP (\<lambda>s. Process n (SetGenome g s))"

definition reg_of :: "nat \<Rightarrow> error + vm \<Rightarrow> error + real" where
  "reg_of i r = bindE r (GetReg i)"

definition countdown_genome :: "Instruction list" where
  "countdown_genome =
     [Instruction SetReg 0 3 0, Instruction SetReg 1 0 0,
      Instruction Countdown 0 1 0, Instruction Inc 1 0 0]"

definition backup_genome :: "Instruction list" where
  "backup_genome =
     [Instruction ScopeReg 3 0 0, Instruction Scope 0 0 0,
      Instruction SetReg 3 42 0, Instruction ScopeReg 3 0 0]"

section \<open>Evaluation on concrete machines\<close>

text \<open>
  The simplifier evaluates a run once it is kept from unfolding the continuation of
  \<open>bindE\<close> before its first argument is a value.
\<close>

lemma bindE_weak_cong: "m = m' \<Longrightarrow> bindE m f = bindE m' f"
  by simp

lemma upt_REGS: "[0..<REGS] = [0, 1, 2, 3, 4, 5, 6, 7, 8, 9, 10, 11, 12, 13, 14, 15]"
  unfolding REGS_def by code_simp

lemma ResetHardware_unfold:
  "ResetHardware s = ResetIP ((fold ResetHardware_cell
      [0, 1, 2, 3, 4, 5, 6, 7, 8, 9, 10, 11, 12, 13, 14, 15] s)\<lparr>errors := 0\<rparr>)"
  by (simp only: ResetHardware_def upt_REGS)

lemma Process_numeral:
  "Process (numeral n) s = bindE (SingleProcess s) (Process (pred_numeral n))"
  by (simp add: numeral_eq_Suc)

lemmas eval_simps =
  AvidaGP_def Reset_def ResetHardware_unfold REGS_def STACK_CAP_def ResetHardware_cell_def
  ResetIP_def ResetIP_loop.simps ExitScope_def ExitScope_restore.simps
  ProcessInst.simps UpdateScope.simps idx_def at_pos_def size_t_of_int_def size_t_inc_def
  vec_back_def at_vec_def CurScope_def BypassScope_def BypassScope_loop.simps InstScope_def
  SingleProcess_def Process_numeral Let_def PushStack_def PopStack_def SetGenome_def
  run_def reg_of_def GetReg_def

section \<open>What the scope primitives leave unchanged\<close>

lemma ExitScope_restore_frame:
  "ExitScope_restore s = Inr s' \<Longrightarrow>
     genome s' = genome s \<and> errors s' = errors s \<and> call_stack s' = call_stack s \<and>
     inst_ptr s' = inst_ptr s \<and> scope_stack s' = scope_stack s"
proof (induction s rule: ExitScope_restore.induct)
  case (1 s)
  note eq = ExitScope_restore.simps [of s]
  show ?case
  proof (cases "reg_stack s = []")
    case True
    with "1.prems" eq show ?thesis by simp
  next
    case False
    from "1.prems" False eq obtain cur where cur: "CurScope s = Inr cur"
      by (cases "CurScope s") simp_all
    show ?thesis
    proof (cases "rb_scope (last (reg_stack s)) = cur")
      case same: True
      from "1.prems" False cur same eq obtain i
        where i: "at_pos (reg_id (last (reg_stack s))) = Inr i"
        by (cases "at_pos (reg_id (last (reg_stack s)))") simp_all
      from "1.prems" False cur same i eq
      have "ExitScope_restore
              (s\<lparr>regs := (regs s)(i := rb_value (last (reg_stack s))),
                 reg_stack := butlast (reg_stack s)\<rparr>) = Inr s'"
        by simp
      from "1.IH" [OF False cur same i this] show ?thesis by simp
    next
      case False
      with "1.prems" \<open>reg_stack s \<noteq> []\<close> cur eq show ?thesis by simp
    qed
  qed
qed

lemma ExitScope_frame:
  "ExitScope s = Inr s' \<Longrightarrow>
     genome s' = genome s \<and> errors s' = errors s \<and> call_stack s' = call_stack s \<and>
     inst_ptr s' = inst_ptr s \<and> scope_stack s' = butlast (scope_stack s) \<and>
     1 < length (scope_stack s)"
  by (auto simp: ExitScope_def bindE_Inr_iff split: if_splits dest!: ExitScope_restore_frame)

lemma BypassScope_loop_frame: "\<exists>p. BypassScope_loop scp s = s\<lparr>inst_ptr := p\<rparr>"
proof (induction scp s rule: BypassScope_loop.induct)
  case (1 scp s)
  show ?case
  proof (cases "inst_ptr s + 1 < length (genome s)")
    case True
    let ?s1 = "s\<lparr>inst_ptr := inst_ptr s + 1\<rparr>"
    let ?t = "InstScope (genome ?s1 ! inst_ptr ?s1)"
    show ?thesis
    proof (cases "?t \<noteq> 0 \<and> ?t \<le> scp")
      case stop: True
      with True have "BypassScope_loop scp s = s\<lparr>inst_ptr := inst_ptr s\<rparr>"
        by (simp add: BypassScope_loop.simps [of scp s] Let_def)
      then show ?thesis by blast
    next
      case False
      from "1.IH" [OF True refl refl False] obtain p
        where "BypassScope_loop scp ?s1 = ?s1\<lparr>inst_ptr := p\<rparr>" by blast
      with True False have "BypassScope_loop scp s = s\<lparr>inst_ptr := p\<rparr>"
        by (auto simp: BypassScope_loop.simps [of scp s] Let_def)
      then show ?thesis by blast
    qed
  next
    case False
    then have "BypassScope_loop scp s = s\<lparr>inst_ptr := inst_ptr s\<rparr>"
      by (simp add: BypassScope_loop.simps [of scp s])
    then show ?thesis by blast
  qed
qed

section \<open>Invariants carried through the interpreter\<close>

lemma ResetIP_loop_preserve:
  assumes exit: "\<And>s s'. Inv s \<Longrightarrow> ExitScope s = Inr s' \<Longrightarrow> Inv s'"
  shows "Inv s \<Longrightarrow> ResetIP_loop s = Inr s' \<Longrightarrow> Inv s'"
proof (induction s rule: ResetIP_loop.induct)
  case (1 s)
  note eq = ResetIP_loop.simps [of s]
  show ?case
  proof (cases "1 < length (scope_stack s)")
    case True
    with "1.prems" eq obtain s1 where s1: "ExitScope s = Inr s1"
      and r: "ResetIP_loop s1 = Inr s'"
      by (auto simp: bindE_Inr_iff)
    from "1.IH" [OF True s1 exit [OF "1.prems"(1) s1] r] show ?thesis .
  next
    case False
    with "1.prems" eq show ?thesis by simp
  qed
qed

lemma ResetIP_preserve:
  assumes exit: "\<And>s s'. Inv s \<Longrightarrow> ExitScope s = Inr s' \<Longrightarrow> Inv s'"
    and ip: "\<And>s p. Inv s \<Longrightarrow> Inv (s\<lparr>inst_ptr := p\<rparr>)"
    and cs: "\<And>s c. Inv s \<Longrightarrow> Inv (s\<lparr>call_stack := c\<rparr>)"
  shows "Inv s \<Longrightarrow> ResetIP s = Inr s' \<Longrightarrow> Inv s'"
proof -
  assume inv: "Inv s" and "ResetIP s = Inr s'"
  then obtain s1 where l: "ResetIP_loop (s\<lparr>inst_ptr := 0\<rparr>) = Inr s1"
    and s': "s' = s1\<lparr>call_stack := []\<rparr>"
    by (auto simp: ResetIP_def bindE_Inr_iff)
  have "Inv s1"
    using exit ip [OF inv] l by (rule ResetIP_loop_preserve [where Inv = Inv])
  with s' cs show ?thesis by simp
qed

lemma BypassScope_preserve:
  assumes exit: "\<And>s s'. Inv s \<Longrightarrow> ExitScope s = Inr s' \<Longrightarrow> Inv s'"
    and ip: "\<And>s p. Inv s \<Longrightarrow> Inv (s\<lparr>inst_ptr := p\<rparr>)"
  shows "Inv s \<Longrightarrow> BypassScope n s = Inr s' \<Longrightarrow> Inv s'"
proof -
  assume inv: "Inv s" and b: "BypassScope n s = Inr s'"
  from b obtain cur where cur: "CurScope s = Inr cur"
    by (auto simp: BypassScope_def Let_def bindE_Inr_iff)
  show ?thesis
  proof (cases "cur < size_t_inc n")
    case True
    with b cur inv show ?thesis by (simp add: BypassScope_def Let_def)
  next
    case False
    with b cur obtain s1 where e: "ExitScope s = Inr s1"
      and s': "s' = BypassScope_loop (size_t_inc n) s1"
      by (auto simp: BypassScope_def Let_def bindE_Inr_iff)
    from BypassScope_loop_frame obtain p
      where "BypassScope_loop (size_t_inc n) s1 = s1\<lparr>inst_ptr := p\<rparr>" by blast
    with s' ip [OF exit [OF inv e]] show ?thesis by simp
  qed
qed

text \<open>
  A state predicate that survives the scope primitives and the field updates of the
  structured instructions survives \<open>UpdateScope\<close> and \<open>ProcessInst\<close>, provided the
  other instructions keep it and every instruction fetched from the genome may be
  dispatched (\<open>OK\<close>).
\<close>

lemma preserve_generic:
  fixes Inv :: "vm \<Rightarrow> bool" and OK :: "Instruction \<Rightarrow> bool"
  assumes exit: "\<And>s s'. Inv s \<Longrightarrow> ExitScope s = Inr s' \<Longrightarrow> Inv s'"
    and ip: "\<And>s p. Inv s \<Longrightarrow> Inv (s\<lparr>inst_ptr := p\<rparr>)"
    and cs: "\<And>s c. Inv s \<Longrightarrow> Inv (s\<lparr>call_stack := c\<rparr>)"
    and push: "\<And>s top n ty p. Inv s \<Longrightarrow> vec_back (scope_stack s) = Inr top \<Longrightarrow> scope top < n
                 \<Longrightarrow> Inv (s\<lparr>scope_stack := scope_stack s @ [ScopeInfo n ty p]\<rparr>)"
    and rg: "\<And>s r. Inv s \<Longrightarrow> Inv (s\<lparr>regs := r\<rparr>)"
    and fs: "\<And>s f. Inv s \<Longrightarrow> Inv (s\<lparr>fun_starts := f\<rparr>)"
    and pl: "\<And>inst s s'. Inv s \<Longrightarrow> OK inst \<Longrightarrow>
                 inst_id inst \<notin> {If_op, While, Countdown, Break, Scope, Define, Call} \<Longrightarrow>
                 ProcessInst inst s = Inr s' \<Longrightarrow> Inv s'"
    and fetch: "\<And>s p i. Inv s \<Longrightarrow> at_vec (genome s) p = Inr i \<Longrightarrow> OK i"
  shows "Inv s1 \<Longrightarrow> UpdateScope n ty s1 = Inr (r, s1') \<Longrightarrow> Inv s1'"
    and "Inv s2 \<Longrightarrow> OK inst \<Longrightarrow> ProcessInst inst s2 = Inr s2' \<Longrightarrow> Inv s2'"
proof (induction n ty s1 and inst s2 arbitrary: r s1' and s2' rule: UpdateScope_ProcessInst.induct)
  case (1 new_scope0 ty s)
  have reset: "Inv s'" if "Inv s" "ResetIP s = Inr s'" for s s'
    using exit ip cs that by (rule ResetIP_preserve [where Inv = Inv])
  from "1.prems"(2) obtain top where top: "vec_back (scope_stack s) = Inr top"
    by (auto simp: UpdateScope.simps [of new_scope0 ty s] bindE_Inr_iff)
  note eq = "1.prems"(2) [unfolded UpdateScope.simps [of new_scope0 ty s], simplified top bindE_simps Let_def]
  show ?case
  proof (cases "scope top < size_t_inc new_scope0")
    case True
    with eq have "s1' = s\<lparr>scope_stack := scope_stack s @ [ScopeInfo (size_t_inc new_scope0) ty (inst_ptr s)]\<rparr>"
      by simp
    with push [OF "1.prems"(1) top True] show ?thesis by simp
  next
    case nlt: False
    show ?thesis
    proof (cases "stype top = LOOP")
      case True
      with eq nlt obtain sa inst s2 where a: "ExitScope (s\<lparr>inst_ptr := start_pos top\<rparr>) = Inr sa"
        and b: "at_vec (genome sa) (inst_ptr sa) = Inr inst"
        and c: "ProcessInst inst sa = Inr s2" and d: "s1' = s2"
        by (auto simp: bindE_Inr_iff)
      have "Inv sa" using exit [OF ip [OF "1.prems"(1)] a] .
      from "1.IH"(1) [OF top refl refl nlt True a b this fetch [OF this b] c] d
      show ?thesis by simp
    next
      case nloop: False
      show ?thesis
      proof (cases "stype top = FUNCTION")
        case True
        with eq nlt nloop obtain ret sa inst s2 where r: "vec_back (call_stack s) = Inr ret"
          and a: "(if length (genome s) \<le> ret then ResetIP (s\<lparr>inst_ptr := ret\<rparr>)
                else ExitScope (s\<lparr>inst_ptr := ret, call_stack := butlast (call_stack s)\<rparr>)) = Inr sa"
          and b: "at_vec (genome sa) (inst_ptr sa) = Inr inst"
          and c: "ProcessInst inst sa = Inr s2" and d: "s1' = s2"
          by (auto simp: bindE_Inr_iff)
        have "Inv sa"
        proof (cases "length (genome s) \<le> ret")
          case True
          with a reset [OF ip [OF "1.prems"(1)]] show ?thesis by simp
        next
          case False
          with a exit [OF cs [OF ip [OF "1.prems"(1)]]] show ?thesis by simp
        qed
        from "1.IH"(2) [OF top refl refl nlt nloop True r a b this fetch [OF this b] c] d
        show ?thesis by simp
      next
        case False
        with eq nlt nloop obtain sa where a: "ExitScope s = Inr sa"
          and c: "UpdateScope (size_t_inc new_scope0) ty sa = Inr (r, s1')"
          by (auto simp: bindE_Inr_iff)
        from "1.IH"(3) [OF top refl refl nlt nloop False a exit [OF "1.prems"(1) a] c]
        show ?thesis .
      qed
    qed
  qed
next
  case (2 inst s)
  have bypass: "Inv s'" if "Inv s" "BypassScope n s = Inr s'" for n s s'
    using exit ip that by (rule BypassScope_preserve [where Inv = Inv])
  note inv = "2.prems"(1) and ok = "2.prems"(2) and run = "2.prems"(3)
  consider (plain) "inst_id inst \<notin> {If_op, While, Countdown, Break, Scope, Define, Call}"
    | (If_op) "inst_id inst = If_op" | (While) "inst_id inst = While"
    | (Countdown) "inst_id inst = Countdown" | (Break) "inst_id inst = Break"
    | (Scope) "inst_id inst = Scope" | (Define) "inst_id inst = Define"
    | (Call) "inst_id inst = Call"
    by auto
  then show ?case
  proof cases
    case plain
    from pl [OF inv ok plain run] show ?thesis .
  next
    case If_op
    from run If_op obtain e sa where u: "UpdateScope (size_t_of_int (arg1 inst)) BASIC s = Inr (e, sa)"
      and rest: "(if \<not> e then Inr sa else bindE (idx (arg0 inst)) (\<lambda>t.
              if regs sa t = 0 then BypassScope (size_t_of_int (arg1 inst)) sa else Inr sa)) = Inr s2'"
      by (auto simp: ProcessInst.simps [of inst s] bindE_Inr_iff)
    from "2.IH"(1) [OF If_op inv u] have "Inv sa" .
    with rest bypass show ?thesis by (auto simp: bindE_Inr_iff split: if_splits)
  next
    case While
    from run While obtain e sa where u: "UpdateScope (size_t_of_int (arg1 inst)) LOOP s = Inr (e, sa)"
      and rest: "(if \<not> e then Inr sa else bindE (idx (arg0 inst)) (\<lambda>t.
              if regs sa t = 0 then BypassScope (size_t_of_int (arg1 inst)) sa else Inr sa)) = Inr s2'"
      by (auto simp: ProcessInst.simps [of inst s] bindE_Inr_iff)
    from "2.IH"(2) [OF While inv u] have "Inv sa" .
    with rest bypass show ?thesis by (auto simp: bindE_Inr_iff split: if_splits)
  next
    case Countdown
    from run Countdown obtain e sa where u: "UpdateScope (size_t_of_int (arg1 inst)) LOOP s = Inr (e, sa)"
      and rest: "(if \<not> e then Inr sa else bindE (idx (arg0 inst)) (\<lambda>t.
              if regs sa t = 0 then BypassScope (size_t_of_int (arg1 inst)) sa
              else Inr (sa\<lparr>regs := (regs sa)(t := regs sa t - 1)\<rparr>))) = Inr s2'"
      by (auto simp: ProcessInst.simps [of inst s] bindE_Inr_iff)
    from "2.IH"(3) [OF Countdown inv u] have "Inv sa" .
    with rest bypass rg show ?thesis by (auto simp: bindE_Inr_iff split: if_splits)
  next
    case Break
    with run bypass [OF inv] show ?thesis
      by (simp add: ProcessInst.simps [of inst s])
  next
    case Scope
    from run Scope obtain e where u: "UpdateScope (size_t_of_int (arg0 inst)) BASIC s = Inr (e, s2')"
      by (auto simp: ProcessInst.simps [of inst s] bindE_Inr_iff)
    from "2.IH"(4) [OF Scope inv u] show ?thesis .
  next
    case Define
    from run Define obtain e sa where u: "UpdateScope (size_t_of_int (arg1 inst)) BASIC s = Inr (e, sa)"
      and rest: "(if \<not> e then Inr sa else bindE (idx (arg0 inst)) (\<lambda>f.
              BypassScope (size_t_of_int (arg1 inst))
                (sa\<lparr>fun_starts := (fun_starts sa)(f := int (inst_ptr sa))\<rparr>))) = Inr s2'"
      by (auto simp: ProcessInst.simps [of inst s] bindE_Inr_iff)
    from "2.IH"(5) [OF Define inv u] have sa: "Inv sa" .
    show ?thesis
    proof (cases e)
      case True
      with rest obtain f where "BypassScope (size_t_of_int (arg1 inst))
                (sa\<lparr>fun_starts := (fun_starts sa)(f := int (inst_ptr sa))\<rparr>) = Inr s2'"
        by (auto simp: bindE_Inr_iff)
      from bypass [OF fs [OF sa] this] show ?thesis .
    next
      case False
      with rest sa show ?thesis by simp
    qed
  next
    case Call
    from run Call obtain f where f: "idx (arg0 inst) = Inr f"
      by (auto simp: ProcessInst.simps [of inst s] bindE_Inr_iff)
    note eq = run [unfolded ProcessInst.simps [of inst s], simplified Call InstID.case f bindE_simps Let_def]
    show ?thesis
    proof (cases "length (genome s) \<le> size_t_of_int (fun_starts s f) \<or>
                  inst_id (genome s ! size_t_of_int (fun_starts s f)) \<noteq> Define")
      case True
      with eq inv show ?thesis by auto
    next
      case False
      let ?U = "UpdateScope (size_t_of_int (arg1 (genome s ! size_t_of_int (fun_starts s f)))) FUNCTION s"
      from eq False obtain e sa where u: "?U = Inr (e, sa)"
        by (cases ?U) auto
      from "2.IH"(6) [OF Call f refl False refl inv u] have sa: "Inv sa" .
      from eq False u have "s2' = (if \<not> e then sa
             else sa\<lparr>call_stack := call_stack sa @ [inst_ptr sa + 1],
                          inst_ptr := size_t_of_int (fun_starts s f) + 1\<rparr>)"
        by (auto split: if_splits)
      with sa ip [OF cs [OF sa]] show ?thesis by simp
    qed
  qed
qed

lemma ProcessInst_plain_frame:
  assumes "inst_id inst \<notin> {If_op, While, Countdown, Break, Scope, Define, Call}"
    and "ProcessInst inst s = Inr s'"
  shows "genome s' = genome s \<and> scope_stack s' = scope_stack s \<and> call_stack s' = call_stack s \<and>
         inst_ptr s' = inst_ptr s \<and> (inst_id inst \<notin> {Div, Mod} \<longrightarrow> errors s' = errors s)"
  using assms
  by (cases "inst_id inst")
     (auto simp: ProcessInst.simps [of inst s] bindE_Inr_iff PushStack_def PopStack_def Let_def
           split: if_splits)

section \<open>The scope-stack invariant\<close>

text \<open>
  The scope stack is non-empty, its bottom frame is \<open>(0, ROOT, 0)\<close> and the levels
  strictly increase from bottom to top.
\<close>

definition scope_inv :: "vm \<Rightarrow> bool" where
  "scope_inv s \<longleftrightarrow>
     scope_stack s \<noteq> [] \<and> hd (scope_stack s) = ScopeInfo 0 ROOT 0 \<and>
     sorted_wrt (<) (map scope (scope_stack s))"

lemma sorted_wrt_less_le_last:
  "sorted_wrt (<) (xs :: nat list) \<Longrightarrow> x \<in> set xs \<Longrightarrow> x \<le> last xs"
  by (induction xs) (auto simp: less_imp_le)

lemma scope_inv_exit:
  "scope_inv s \<Longrightarrow> ExitScope s = Inr s' \<Longrightarrow> scope_inv s'"
proof -
  assume inv: "scope_inv s" and e: "ExitScope s = Inr s'"
  from ExitScope_frame [OF e] have st: "scope_stack s' = butlast (scope_stack s)"
    and len: "1 < length (scope_stack s)" by simp_all
  from len obtain x y zs where xs: "scope_stack s = x # y # zs"
    by (cases "scope_stack s"; cases "tl (scope_stack s)") auto
  from inv have "sorted_wrt (<) (map scope (scope_stack s))" by (simp add: scope_inv_def)
  then have "sorted_wrt (<) (take (length (scope_stack s) - 1) (map scope (scope_stack s)))"
    by (rule sorted_wrt_take)
  then have "sorted_wrt (<) (map scope (butlast (scope_stack s)))"
    by (simp add: butlast_conv_take take_map)
  with inv st xs show ?thesis by (simp add: scope_inv_def)
qed

lemma scope_inv_push:
  assumes "scope_inv s" and "vec_back (scope_stack s) = Inr tp" and "scope tp < n"
  shows "scope_inv (s\<lparr>scope_stack := scope_stack s @ [ScopeInfo n ty p]\<rparr>)"
proof -
  from assms(1) have ne: "scope_stack s \<noteq> []" and srt: "sorted_wrt (<) (map scope (scope_stack s))"
    by (simp_all add: scope_inv_def)
  from assms(2) ne have tp: "tp = last (scope_stack s)" by (simp add: vec_back_def)
  have "\<forall>x\<in>set (map scope (scope_stack s)). x < n"
  proof
    fix x assume "x \<in> set (map scope (scope_stack s))"
    from sorted_wrt_less_le_last [OF srt this] ne tp assms(3) show "x < n"
      by (simp add: last_map)
  qed
  with assms(1) srt show ?thesis
    by (auto simp: scope_inv_def sorted_wrt_append)
qed

lemma scope_inv_ProcessInst:
  "scope_inv s \<Longrightarrow> ProcessInst inst s = Inr s' \<Longrightarrow> scope_inv s'"
proof (rule preserve_generic(2) [where Inv = scope_inv and OK = "\<lambda>_. True"])
  show "scope_inv s'" if "scope_inv s" "ExitScope s = Inr s'" for s s'
    using that by (rule scope_inv_exit)
  show "scope_inv (s\<lparr>scope_stack := scope_stack s @ [ScopeInfo n ty p]\<rparr>)"
    if "scope_inv s" "vec_back (scope_stack s) = Inr tp" "scope tp < n" for s tp n ty p
    using that by (rule scope_inv_push)
  show "scope_inv s'"
    if "scope_inv s" "inst_id inst \<notin> {If_op, While, Countdown, Break, Scope, Define, Call}"
      "ProcessInst inst s = Inr s'" for inst s s'
    using ProcessInst_plain_frame [OF that(2,3)] that(1) by (simp add: scope_inv_def)
qed (simp_all add: scope_inv_def)


lemma fold_ResetHardware_cell_frame:
  "scope_stack (fold ResetHardware_cell xs s) = scope_stack s \<and>
   reg_stack (fold ResetHardware_cell xs s) = reg_stack s \<and>
   call_stack (fold ResetHardware_cell xs s) = call_stack s \<and>
   genome (fold ResetHardware_cell xs s) = genome s"
  by (induction xs arbitrary: s) (simp_all add: ResetHardware_cell_def)

lemma scope_inv_ResetIP: "scope_inv s \<Longrightarrow> ResetIP s = Inr s' \<Longrightarrow> scope_inv s'"
proof (rule ResetIP_preserve [where Inv = scope_inv])
  show "scope_inv s'" if "scope_inv s" "ExitScope s = Inr s'" for s s'
    using that by (rule scope_inv_exit)
qed (simp_all add: scope_inv_def)

lemma scope_inv_ResetHardware:
  "scope_inv s \<Longrightarrow> ResetHardware s = Inr s' \<Longrightarrow> scope_inv s'"
  unfolding ResetHardware_def
  by (erule scope_inv_ResetIP [rotated])
     (simp add: scope_inv_def fold_ResetHardware_cell_frame)

lemma scope_inv_Reset: "scope_inv s \<Longrightarrow> Reset s = Inr s' \<Longrightarrow> scope_inv s'"
  unfolding Reset_def
  by (erule scope_inv_ResetHardware [rotated]) (simp add: scope_inv_def)

lemma scope_inv_AvidaGP: "AvidaGP = Inr s \<Longrightarrow> scope_inv s"
  unfolding AvidaGP_def
  by (erule scope_inv_Reset [rotated]) (simp add: scope_inv_def)

lemma scope_inv_SingleProcess:
  assumes "scope_inv s" and "SingleProcess s = Inr s'"
  shows "scope_inv s'"
proof -
  from assms(2) obtain s1 inst s2
    where a: "(if inst_ptr s \<ge> length (genome s) then ResetIP s else Inr s) = Inr s1"
      and c: "ProcessInst inst s1 = Inr s2" and d: "s' = s2\<lparr>inst_ptr := inst_ptr s2 + 1\<rparr>"
    by (auto simp: SingleProcess_def bindE_Inr_iff)
  from a assms(1) have "scope_inv s1"
    by (auto split: if_splits intro: scope_inv_ResetIP)
  from scope_inv_ProcessInst [OF this c] d show ?thesis by (simp add: scope_inv_def)
qed

lemma scope_inv_Process: "scope_inv s \<Longrightarrow> Process n s = Inr s' \<Longrightarrow> scope_inv s'"
proof (induction n arbitrary: s)
  case 0
  then show ?case by simp
next
  case (Suc n)
  from Suc.prems(2) obtain s1 where a: "SingleProcess s = Inr s1" and b: "Process n s1 = Inr s'"
    by (auto simp: bindE_Inr_iff)
  from Suc.IH [OF scope_inv_SingleProcess [OF Suc.prems(1) a] b] show ?case .
qed

text \<open>
  The states a caller can reach: the constructor, then any of the public operations
  (\<^verbatim>\<open>RandomizeInst\<close> and \<^verbatim>\<open>PushRandom\<close> are \<^verbatim>\<open>SetInst\<close> and \<^verbatim>\<open>PushInst\<close> of a drawn
  instruction).
\<close>

inductive reachable :: "vm \<Rightarrow> bool" where
  construct: "AvidaGP = Inr s \<Longrightarrow> reachable s"
| reset: "reachable s \<Longrightarrow> Reset s = Inr s' \<Longrightarrow> reachable s'"
| reset_hardware: "reachable s \<Longrightarrow> ResetHardware s = Inr s' \<Longrightarrow> reachable s'"
| reset_ip: "reachable s \<Longrightarrow> ResetIP s = Inr s' \<Longrightarrow> reachable s'"
| set_inst: "reachable s \<Longrightarrow> SetInst pos inst s = Inr s' \<Longrightarrow> reachable s'"
| set_genome: "reachable s \<Longrightarrow> reachable (SetGenome g s)"
| push_inst: "reachable s \<Longrightarrow> reachable (PushInst inst s)"
| process_inst: "reachable s \<Longrightarrow> ProcessInst inst s = Inr s' \<Longrightarrow> reachable s'"
| single_process: "reachable s \<Longrightarrow> SingleProcess s = Inr s' \<Longrightarrow> reachable s'"
| process: "reachable s \<Longrightarrow> Process n s = Inr s' \<Longrightarrow> reachable s'"

section \<open>A sample machine and the index check\<close>

text \<open>The machine right after a hardware reset, with a one-instruction genome.\<close>

definition sample_vm :: vm where
  "sample_vm =
     \<lparr>genome = [Instruction Inc 0 0 0], regs = real, inputs = (\<lambda>_. 0), outputs = (\<lambda>_. 0),
      stacks = (\<lambda>_. []), fun_starts = (\<lambda>_. - 1), inst_ptr = 0,
      scope_stack = [ScopeInfo 0 ROOT 0], reg_stack = [], call_stack = [], errors = 0\<rparr>"

lemma idx_in_range: "0 \<le> a \<Longrightarrow> a < 16 \<Longrightarrow> idx a = Inr (nat a)"
  by (simp add: idx_def at_pos_def size_t_of_int_def REGS_def)


lemma size_t_of_int_small: "0 \<le> a \<Longrightarrow> a < 2 ^ 31 \<Longrightarrow> size_t_of_int a = nat a"
  by (simp add: size_t_of_int_def)

lemma idx_error: "idx a = Inl e \<Longrightarrow> e = AssertFailed"
  by (simp add: idx_def at_pos_def split: if_splits)












section \<open>The error counter\<close>











section \<open>The wrap of \<^verbatim>\<open>ResetIP\<close>\<close>

text \<open>
  A genome whose function is called by its last instruction, so that the return position
  is the length of the genome; and two readers of a run's result.
\<close>

definition call_genome :: "Instruction list" where
  "call_genome =
     [Instruction Define 0 0 0, Instruction Inc 1 0 0,
      Instruction Scope 0 0 0, Instruction Call 0 0 0]"

definition call_stack_of :: "error + vm \<Rightarrow> error + nat list" where
  "call_stack_of r = bindE r (\<lambda>s. Inr (call_stack s))"

definition top_frame_of :: "error + vm \<Rightarrow> error + ScopeInfo" where
  "top_frame_of r = bindE r (\<lambda>s. vec_back (scope_stack s))"

text \<open>Every entry of the register-backup stack names a register below \<open>REGS\<close>.\<close>

definition backups_ok :: "vm \<Rightarrow> bool" where
  "backups_ok s \<longleftrightarrow> list_all (\<lambda>b. reg_id b < REGS) (reg_stack s)"

lemma ExitScope_restore_total:
  "scope_stack s \<noteq> [] \<Longrightarrow> backups_ok s \<Longrightarrow>
     \<exists>s'. ExitScope_restore s = Inr s' \<and> backups_ok s'"
proof (induction s rule: ExitScope_restore.induct)
  case (1 s)
  note eq = ExitScope_restore.simps [of s]
  from "1.prems"(1) have cur: "CurScope s = Inr (scope (last (scope_stack s)))"
    by (simp add: CurScope_def vec_back_def)
  show ?case
  proof (cases "reg_stack s \<noteq> [] \<and> rb_scope (last (reg_stack s)) = scope (last (scope_stack s))")
    case True
    with "1.prems"(2) have i: "at_pos (reg_id (last (reg_stack s))) = Inr (reg_id (last (reg_stack s)))"
      by (simp add: backups_ok_def at_pos_def list_all_iff)
    let ?s1 = "s\<lparr>regs := (regs s)(reg_id (last (reg_stack s)) := rb_value (last (reg_stack s))),
                 reg_stack := butlast (reg_stack s)\<rparr>"
    from "1.prems" have "scope_stack ?s1 \<noteq> []" "backups_ok ?s1"
      by (auto simp: backups_ok_def list_all_iff dest: in_set_butlastD)
    from "1.IH" [OF _ cur _ i this] True
    obtain s' where "ExitScope_restore ?s1 = Inr s'" "backups_ok s'" by auto
    with True cur i eq show ?thesis by simp
  next
    case False
    with cur eq "1.prems"(2) show ?thesis by auto
  qed
qed

lemma ExitScope_total:
  assumes "1 < length (scope_stack s)" and "length (scope_stack s) \<le> REGS" and "backups_ok s"
  shows "\<exists>s'. ExitScope s = Inr s' \<and> backups_ok s'"
proof -
  from assms(1) have "scope_stack s \<noteq> []" by auto
  from ExitScope_restore_total [OF this assms(3)] obtain s1
    where "ExitScope_restore s = Inr s1" "backups_ok s1" by blast
  with assms(1,2) show ?thesis by (simp add: ExitScope_def backups_ok_def)
qed

lemma ResetIP_loop_total:
  "length (scope_stack s) \<le> REGS \<Longrightarrow> backups_ok s \<Longrightarrow> \<exists>s'. ResetIP_loop s = Inr s'"
proof (induction s rule: ResetIP_loop.induct)
  case (1 s)
  note eq = ResetIP_loop.simps [of s]
  show ?case
  proof (cases "1 < length (scope_stack s)")
    case True
    from ExitScope_total [OF True "1.prems"] obtain s1
      where e: "ExitScope s = Inr s1" and b: "backups_ok s1" by blast
    from ExitScope_frame [OF e] "1.prems"(1) have "length (scope_stack s1) \<le> REGS" by simp
    from "1.IH" [OF True e this b] e True eq show ?thesis by simp
  next
    case False
    with eq show ?thesis by simp
  qed
qed

lemma ResetIP_loop_result:
  "ResetIP_loop s = Inr s' \<Longrightarrow>
     scope_stack s' = take 1 (scope_stack s) \<and> inst_ptr s' = inst_ptr s \<and> genome s' = genome s"
proof (induction s rule: ResetIP_loop.induct)
  case (1 s)
  note eq = ResetIP_loop.simps [of s]
  show ?case
  proof (cases "1 < length (scope_stack s)")
    case True
    with "1.prems" eq obtain s1 where e: "ExitScope s = Inr s1" and r: "ResetIP_loop s1 = Inr s'"
      by (auto simp: bindE_Inr_iff)
    from True have "take 1 (butlast (scope_stack s)) = take 1 (scope_stack s)"
      by (cases "scope_stack s"; cases "tl (scope_stack s)") auto
    with "1.IH" [OF True e r] ExitScope_frame [OF e] show ?thesis by simp
  next
    case False
    with "1.prems" eq show ?thesis by simp
  qed
qed

lemma ResetIP_result:
  assumes "ResetIP s = Inr s'"
  shows "inst_ptr s' = 0 \<and> call_stack s' = [] \<and> scope_stack s' = take 1 (scope_stack s) \<and>
         genome s' = genome s"
proof -
  from assms obtain s1 where l: "ResetIP_loop (s\<lparr>inst_ptr := 0\<rparr>) = Inr s1"
    and s': "s' = s1\<lparr>call_stack := []\<rparr>"
    by (auto simp: ResetIP_def bindE_Inr_iff)
  from ResetIP_loop_result [OF l] s' show ?thesis by simp
qed

lemma ResetIP_total:
  assumes "length (scope_stack s) \<le> REGS" and "backups_ok s"
  shows "\<exists>s'. ResetIP s = Inr s'"
proof -
  from assms have "\<exists>s'. ResetIP_loop (s\<lparr>inst_ptr := 0\<rparr>) = Inr s'"
    by (intro ResetIP_loop_total) (simp_all add: backups_ok_def)
  then show ?thesis by (auto simp: ResetIP_def)
qed

section \<open>The genome printer\<close>

text \<open>
  \<^verbatim>\<open>InstLib.h\<close> is not among the sources; \<^verbatim>\<open>GetName\<close> and \<^verbatim>\<open>GetNumArgs\<close> return the name
  and the number of arguments that \<^verbatim>\<open>GetInstLib\<close> registers with \<^verbatim>\<open>AddInst\<close>.
\<close>

fun GetName :: "InstID \<Rightarrow> string" where
  "GetName Inc = ''Inc''"
| "GetName Dec = ''Dec''"
| "GetName Not_op = ''Not''"
| "GetName SetReg = ''SetReg''"
| "GetName Add = ''Add''"
| "GetName Sub = ''Sub''"
| "GetName Mult = ''Mult''"
| "GetName Div = ''Div''"
| "GetName Mod = ''Mod''"
| "GetName TestEqu = ''TestEqu''"
| "GetName TestNEqu = ''TestNEqu''"
| "GetName TestLess = ''TestLess''"
| "GetName If_op = ''If''"
| "GetName While = ''While''"
| "GetName Countdown = ''Countdown''"
| "GetName Break = ''Break''"
| "GetName Scope = ''Scope''"
| "GetName Define = ''Define''"
| "GetName Call = ''Call''"
| "GetName Push = ''Push''"
| "GetName Pop = ''Pop''"
| "GetName Input = ''Input''"
| "GetName Output = ''Output''"
| "GetName CopyVal = ''CopyVal''"
| "GetName ScopeReg = ''ScopeReg''"
| "GetName Unknown = ''Unknown''"

fun GetNumArgs :: "InstID \<Rightarrow> nat" where
  "GetNumArgs Inc = 1"
| "GetNumArgs Dec = 1"
| "GetNumArgs Not_op = 1"
| "GetNumArgs SetReg = 2"
| "GetNumArgs Add = 3"
| "GetNumArgs Sub = 3"
| "GetNumArgs Mult = 3"
| "GetNumArgs Div = 3"
| "GetNumArgs Mod = 3"
| "GetNumArgs TestEqu = 3"
| "GetNumArgs TestNEqu = 3"
| "GetNumArgs TestLess = 3"
| "GetNumArgs If_op = 2"
| "GetNumArgs While = 2"
| "GetNumArgs Countdown = 3"
| "GetNumArgs Break = 1"
| "GetNumArgs Scope = 1"
| "GetNumArgs Define = 2"
| "GetNumArgs Call = 1"
| "GetNumArgs Push = 2"
| "GetNumArgs Pop = 2"
| "GetNumArgs Input = 2"
| "GetNumArgs Output = 2"
| "GetNumArgs CopyVal = 2"
| "GetNumArgs ScopeReg = 1"
| "GetNumArgs Unknown = 0"

text \<open>\<^verbatim>\<open>os << int\<close>: the decimal digits, after a minus sign for a negative number.\<close>

function show_nat :: "nat \<Rightarrow> string" where
  "show_nat n =
     (if n < 10 then [''0123456789'' ! n]
      else show_nat (n div 10) @ [''0123456789'' ! (n mod 10)])"
  by pat_completeness auto
termination
  by (relation "measure id") auto

declare show_nat.simps [simp del]

definition show_int :: "int \<Rightarrow> string" where
  "show_int i = (if i < 0 then CHR ''-'' # show_nat (nat (- i)) else show_nat (nat i))"

definition args :: "Instruction \<Rightarrow> int list" where
  "args inst = [arg0 inst, arg1 inst, arg2 inst]"

text \<open>The body of the \<^verbatim>\<open>for\<close> loop of \<^verbatim>\<open>PrintGenome\<close>, as a recursion over the genome.\<close>

fun PrintGenome_loop :: "nat \<Rightarrow> Instruction list \<Rightarrow> string \<Rightarrow> string" where
  "PrintGenome_loop cur_scope [] os = os"
| "PrintGenome_loop cur_scope (inst # rest) os =
     (let new_scope = InstScope inst;
          os1 = (if new_scope \<noteq> 0 \<and> new_scope = cur_scope
                 then os @ replicate cur_scope CHR '' '' @ ''----'' @ [CHR 0x0A] else os);
          cur1 = (if new_scope \<noteq> 0 \<and> new_scope < cur_scope then new_scope - 1 else cur_scope);
          os2 = os1 @ replicate cur1 CHR '' '' @ GetName (inst_id inst)
                  @ concat (map (\<lambda>a. CHR '' '' # show_int a)
                               (take (GetNumArgs (inst_id inst)) (args inst)));
          os3 = (if new_scope \<noteq> 0 \<and> new_scope > cur1 then os2 @ '' --> '' else os2);
          cur2 = (if new_scope \<noteq> 0 then new_scope else cur1)
      in PrintGenome_loop cur2 rest (os3 @ [CHR 0x0A]))"

definition PrintGenome :: "vm \<Rightarrow> string" where
  "PrintGenome s = PrintGenome_loop 0 (genome s) []"

text \<open>
  The lines of the listing: the number of leading spaces and the text that follows them.
  An instruction is printed at the current scope depth \<open>cur\<close>, lowered first to
  \<open>InstScope inst - 1\<close> when the instruction declares a scope below \<open>cur\<close>; a dashed line
  at depth \<open>cur\<close> precedes an instruction that declares the scope \<open>cur\<close> again; the depth
  after an instruction that declares a scope is that scope.
\<close>

definition inst_text :: "nat \<Rightarrow> Instruction \<Rightarrow> string" where
  "inst_text d inst =
     GetName (inst_id inst)
       @ concat (map (\<lambda>a. CHR '' '' # show_int a) (take (GetNumArgs (inst_id inst)) (args inst)))
       @ (if InstScope inst \<noteq> 0 \<and> InstScope inst > d then '' --> '' else [])"

fun layout :: "nat \<Rightarrow> Instruction list \<Rightarrow> (nat \<times> string) list" where
  "layout cur [] = []"
| "layout cur (inst # rest) =
     (let n = InstScope inst;
          d = (if n \<noteq> 0 \<and> n < cur then n - 1 else cur)
      in (if n \<noteq> 0 \<and> n = cur then [(cur, ''----'')] else [])
           @ (d, inst_text d inst) # layout (if n \<noteq> 0 then n else d) rest)"

definition render :: "(nat \<times> string) list \<Rightarrow> string" where
  "render ls = concat (map (\<lambda>(d, txt). replicate d CHR '' '' @ txt @ [CHR 0x0A]) ls)"

lemma GetName_starts: "GetName i \<noteq> [] \<and> hd (GetName i) \<noteq> CHR '' ''"
  by (cases i) simp_all

lemma inst_text_starts: "inst_text d inst \<noteq> [] \<and> hd (inst_text d inst) \<noteq> CHR '' ''"
  using GetName_starts [of "inst_id inst"] by (simp add: inst_text_def)

lemma PrintGenome_loop_render:
  "PrintGenome_loop cur g os = os @ render (layout cur g)"
proof (induction g arbitrary: cur os)
  case Nil
  show ?case by (simp add: render_def)
next
  case (Cons inst rest)
  show ?case
    by (simp add: Cons.IH Let_def render_def inst_text_def)
qed

lemma layout_starts:
  "list_all (\<lambda>l. snd l \<noteq> [] \<and> hd (snd l) \<noteq> CHR '' '') (layout cur g)"
  by (induction g arbitrary: cur) (simp_all add: Let_def inst_text_starts)

section \<open>Claims\<close>




text \<open>
  C2, as stated: when a structured instruction leaves a \<^verbatim>\<open>FUNCTION\<close> scope whose return
  position is at or beyond the end of the genome, the engine wraps and the saved return
  entry is still on the call stack right after the wrap. This fails. After three steps of
  \<open>call_genome\<close> the top frame is a \<^verbatim>\<open>FUNCTION\<close> frame and the call stack is \<open>[4]\<close>, with
  4 the length of the genome; the wrap \<^verbatim>\<open>ResetIP\<close> leaves the call stack empty, and so
  does the fourth step, which dispatches \<^verbatim>\<open>Scope 0\<close>, wraps and re-dispatches \<^verbatim>\<open>genome[0]\<close>.
\<close>

theorem C2_counterexample:
  "top_frame_of (run call_genome 3) = Inr (ScopeInfo 2 FUNCTION 3) \<and>
   call_stack_of (run call_genome 3) = Inr [4] \<and>
   call_stack_of (bindE (run call_genome 3) ResetIP) = Inr [] \<and>
   call_stack_of (run call_genome 4) = Inr []"
  by (simp add: eval_simps call_genome_def call_stack_of_def top_frame_of_def
      cong: bindE_weak_cong)

text \<open>
  C2, amended: when \<^verbatim>\<open>UpdateScope\<close> is called with \<open>new \<le> current\<close> while the top frame has
  type \<^verbatim>\<open>FUNCTION\<close> and the return position on top of the call stack is at or beyond the
  end of the genome, the engine calls \<^verbatim>\<open>ResetIP\<close>: \<^verbatim>\<open>inst_ptr\<close> becomes 0, all non-root
  scopes are exited and the call stack is emptied (the saved return entry is discarded);
  then \<^verbatim>\<open>genome[0]\<close> is re-dispatched and \<^verbatim>\<open>UpdateScope\<close> returns false. The wrap returns
  in every state with at most \<open>REGS\<close> scope frames and valid backup entries.
\<close>

theorem C2_function_return_past_end_wraps:
  assumes "vec_back (scope_stack s) = Inr tp" and "size_t_inc n \<le> scope tp"
    and "stype tp = FUNCTION" and "vec_back (call_stack s) = Inr ret"
    and "length (genome s) \<le> ret"
    and "length (scope_stack s) \<le> REGS" and "backups_ok s"
  shows "\<exists>s1. ResetIP (s\<lparr>inst_ptr := ret\<rparr>) = Inr s1 \<and>
           inst_ptr s1 = 0 \<and> scope_stack s1 = [hd (scope_stack s)] \<and> call_stack s1 = [] \<and>
           UpdateScope n ty s =
             bindE (at_vec (genome s1) 0) (\<lambda>inst.
             bindE (ProcessInst inst s1) (\<lambda>s2. Inr (False, s2)))"
proof -
  from assms(6,7) have "\<exists>s1. ResetIP (s\<lparr>inst_ptr := ret\<rparr>) = Inr s1"
    by (intro ResetIP_total) (simp_all add: backups_ok_def)
  then obtain s1 where r: "ResetIP (s\<lparr>inst_ptr := ret\<rparr>) = Inr s1" by blast
  from assms(1) have ne: "scope_stack s \<noteq> []" by (auto simp: vec_back_def split: if_splits)
  then have tk: "take 1 (scope_stack s) = [hd (scope_stack s)]" by (cases "scope_stack s") simp_all
  from ResetIP_result [OF r] tk have res: "inst_ptr s1 = 0" "call_stack s1 = []"
    "scope_stack s1 = [hd (scope_stack s)]" by simp_all
  from assms(1-5) r res(1) have "UpdateScope n ty s =
             bindE (at_vec (genome s1) 0) (\<lambda>inst.
             bindE (ProcessInst inst s1) (\<lambda>s2. Inr (False, s2)))"
    by (simp add: UpdateScope.simps [of n ty s] Let_def)
  with r res show ?thesis by blast
qed

theorem C2_function_return_past_end_wraps_witness:
  "\<exists>s. run call_genome 3 = Inr s \<and>
     vec_back (scope_stack s) = Inr (ScopeInfo 2 FUNCTION 3) \<and>
     size_t_inc 0 \<le> scope (ScopeInfo 2 FUNCTION 3) \<and> stype (ScopeInfo 2 FUNCTION 3) = FUNCTION \<and>
     vec_back (call_stack s) = Inr 4 \<and> length (genome s) \<le> 4 \<and>
     length (scope_stack s) \<le> REGS \<and> backups_ok s \<and>
     (\<exists>s1. ResetIP (s\<lparr>inst_ptr := 4\<rparr>) = Inr s1 \<and>
           inst_ptr s1 = 0 \<and> scope_stack s1 = [hd (scope_stack s)] \<and> call_stack s1 = [] \<and>
           UpdateScope 0 BASIC s =
             bindE (at_vec (genome s1) 0) (\<lambda>inst.
             bindE (ProcessInst inst s1) (\<lambda>s2. Inr (False, s2))))"
proof -
  have "\<exists>s. run call_genome 3 = Inr s \<and>
     vec_back (scope_stack s) = Inr (ScopeInfo 2 FUNCTION 3) \<and>
     vec_back (call_stack s) = Inr 4 \<and> length (genome s) \<le> 4 \<and>
     length (scope_stack s) \<le> REGS \<and> backups_ok s"
    by (simp add: eval_simps call_genome_def backups_ok_def cong: bindE_weak_cong)
  then obtain s where s: "run call_genome 3 = Inr s"
    and h: "vec_back (scope_stack s) = Inr (ScopeInfo 2 FUNCTION 3)"
      "vec_back (call_stack s) = Inr 4" "length (genome s) \<le> 4"
      "length (scope_stack s) \<le> REGS" "backups_ok s"
    by blast
  have k: "size_t_inc 0 \<le> scope (ScopeInfo 2 FUNCTION 3)" "stype (ScopeInfo 2 FUNCTION 3) = FUNCTION"
    by (simp_all add: size_t_inc_def)
  from C2_function_return_past_end_wraps [OF h(1) k h(2-5), of BASIC] s h k
  show ?thesis by blast
qed

text \<open>
  C3 (code defect). The specification says that \<^verbatim>\<open>process(k)\<close> on an empty genome is a
  defined no-op that leaves \<^verbatim>\<open>inst_ptr = 0\<close>. In the code \<^verbatim>\<open>SingleProcess\<close> wraps with
  \<^verbatim>\<open>ResetIP\<close> when \<^verbatim>\<open>inst_ptr >= genome.size()\<close> and then reads \<^verbatim>\<open>genome[inst_ptr]\<close> all the
  same: on the freshly constructed machine, whose genome is empty, every \<^verbatim>\<open>Process\<close>
  of at least one step reads \<^verbatim>\<open>genome[0]\<close> outside the vector.
\<close>

theorem C3_empty_genome_process_out_of_range:
  "bindE AvidaGP (Process (Suc k)) = Inl VectorRange"
  by (simp add: eval_simps cong: bindE_weak_cong)

text \<open>
  C4. In a state with \<^verbatim>\<open>regs[b] != 0\<close>, \<^verbatim>\<open>Mod a b c\<close> sets \<^verbatim>\<open>regs[c]\<close> to the quotient
  \<^verbatim>\<open>regs[a] / regs[b]\<close>, exactly as \<^verbatim>\<open>Div a b c\<close> does, and changes no other register (nor
  anything else in the state).
\<close>

theorem C4_mod_is_quotient:
  assumes "0 \<le> a" "a < 16" "0 \<le> b" "b < 16" "0 \<le> c" "c < 16"
    and "regs s (nat b) \<noteq> 0"
  shows "ProcessInst (Instruction Mod a b c) s =
           Inr (s\<lparr>regs := (regs s)(nat c := regs s (nat a) / regs s (nat b))\<rparr>)
       \<and> ProcessInst (Instruction Div a b c) s =
           Inr (s\<lparr>regs := (regs s)(nat c := regs s (nat a) / regs s (nat b))\<rparr>)"
  using assms
  by (simp add: ProcessInst.simps idx_in_range Let_def)

theorem C4_mod_is_quotient_witness:
  "(0::int) \<le> 4 \<and> (4::int) < 16 \<and> (0::int) \<le> 2 \<and> (2::int) < 16 \<and> (0::int) \<le> 5 \<and> (5::int) < 16 \<and>
   regs sample_vm (nat 2) \<noteq> 0 \<and>
   ProcessInst (Instruction Mod 4 2 5) sample_vm =
     Inr (sample_vm\<lparr>regs := (regs sample_vm)(nat 5 := regs sample_vm (nat 4) / regs sample_vm (nat 2))\<rparr>) \<and>
   ProcessInst (Instruction Div 4 2 5) sample_vm =
     Inr (sample_vm\<lparr>regs := (regs sample_vm)(nat 5 := regs sample_vm (nat 4) / regs sample_vm (nat 2))\<rparr>)"
proof -
  have h: "regs sample_vm (nat 2) \<noteq> 0" by (simp add: sample_vm_def)
  from C4_mod_is_quotient [of 4 2 5 sample_vm] h show ?thesis by simp
qed



text \<open>
  C6 (code defect). The specification says that \<^verbatim>\<open>ResetHardware\<close> leaves \<^verbatim>\<open>regs[i] = i\<close>
  and an empty register-backup stack. \<^verbatim>\<open>ResetHardware\<close> writes \<^verbatim>\<open>regs[i] = i\<close> first and
  calls \<^verbatim>\<open>ResetIP\<close> afterwards, whose \<^verbatim>\<open>ExitScope\<close> restores the backed-up registers over
  the fresh values; a backup taken in the root scope is never popped. After four steps
  of \<open>backup_genome\<close> the reset leaves \<^verbatim>\<open>regs[3] = 42\<close> and one entry on the backup stack.
\<close>

theorem C6_reset_hardware_restores_backup:
  "\<exists>s. bindE (run backup_genome 4) ResetHardware = Inr s \<and> regs s 3 = 42 \<and>
       reg_stack s = [RegBackup 0 3 3] \<and> scope_stack s = [ScopeInfo 0 ROOT 0]"
  by (simp add: eval_simps backup_genome_def cong: bindE_weak_cong)

text \<open>
  C7. In every reachable state the scope stack is non-empty, its bottom frame is
  \<open>(0, ROOT, 0)\<close>, and the \<^verbatim>\<open>scope\<close> levels of its frames strictly increase from bottom to
  top: the constructor establishes this, and every public operation and every executed
  instruction that returns preserves it.
\<close>

theorem C7_scope_stack_invariant: "reachable s \<Longrightarrow> scope_inv s"
proof (induction rule: reachable.induct)
  case (construct s)
  then show ?case by (rule scope_inv_AvidaGP)
next
  case (reset s s')
  then show ?case by (blast intro: scope_inv_Reset)
next
  case (reset_hardware s s')
  then show ?case by (blast intro: scope_inv_ResetHardware)
next
  case (reset_ip s s')
  then show ?case by (blast intro: scope_inv_ResetIP)
next
  case (set_inst s pos inst s')
  then show ?case by (auto simp: SetInst_def scope_inv_def split: if_splits)
next
  case (set_genome s g)
  then show ?case by (simp add: SetGenome_def scope_inv_def)
next
  case (push_inst s inst)
  then show ?case by (simp add: PushInst_def scope_inv_def)
next
  case (process_inst s inst s')
  then show ?case by (blast intro: scope_inv_ProcessInst)
next
  case (single_process s s')
  then show ?case by (blast intro: scope_inv_SingleProcess)
next
  case (process s n s')
  then show ?case by (blast intro: scope_inv_Process)
qed

theorem C7_scope_stack_invariant_witness:
  "\<exists>s. run countdown_genome 3 = Inr s \<and> reachable s \<and>
       scope_stack s = [ScopeInfo 0 ROOT 0, ScopeInfo 2 LOOP 2] \<and> scope_inv s"
proof -
  have "\<exists>s. run countdown_genome 3 = Inr s \<and>
          scope_stack s = [ScopeInfo 0 ROOT 0, ScopeInfo 2 LOOP 2]"
    by (simp add: eval_simps countdown_genome_def cong: bindE_weak_cong)
  then obtain s where s: "run countdown_genome 3 = Inr s"
    and st: "scope_stack s = [ScopeInfo 0 ROOT 0, ScopeInfo 2 LOOP 2]" by blast
  from s obtain s0 where s0: "AvidaGP = Inr s0"
    and p: "Process 3 (SetGenome countdown_genome s0) = Inr s"
    by (auto simp: run_def bindE_Inr_iff)
  have r: "reachable s"
    by (rule reachable.process [OF reachable.set_genome [OF reachable.construct [OF s0]] p])
  with s st C7_scope_stack_invariant [OF r] show ?thesis by blast
qed

text \<open>
  C8, as stated: after 20 steps of \<open>countdown_genome\<close> on a fresh machine \<^verbatim>\<open>r1 = 3\<close>
  (and \<^verbatim>\<open>r0 = 0\<close>). This fails: \<^verbatim>\<open>r1\<close> is 1.
\<close>

theorem C8_countdown_counterexample:
  "reg_of 1 (run countdown_genome 20) \<noteq> Inr 3"
  by (simp add: eval_simps countdown_genome_def cong: bindE_weak_cong)

text \<open>
  C8, amended: after 20 steps of \<open>countdown_genome\<close> on a fresh machine \<^verbatim>\<open>r1 = 1\<close> and
  \<^verbatim>\<open>r0 = 2\<close>. No later instruction closes the loop scope, so the body runs once per pass
  over the genome; the wrap at the end of the genome collapses the scope and the two
  \<^verbatim>\<open>SetReg\<close> run again.
\<close>

theorem C8_countdown_runs_body_once_per_pass:
  "reg_of 1 (run countdown_genome 20) = Inr 1 \<and> reg_of 0 (run countdown_genome 20) = Inr 2"
  by (simp add: eval_simps countdown_genome_def cong: bindE_weak_cong)

text \<open>
  C9, as stated: every line emitted by \<^verbatim>\<open>PrintGenome\<close> is indented by exactly two spaces
  per current scope depth. This fails: for the genome \<^verbatim>\<open>Scope 0\<close>, \<^verbatim>\<open>Inc 0\<close> the second line
  is printed at depth 1 and is indented by one space.
\<close>

theorem C9_counterexample:
  "PrintGenome (SetGenome [Instruction Scope 0 0 0, Instruction Inc 0 0 0] sample_vm)
     = ''Scope 0 --> '' @ [CHR 0x0A] @ '' Inc 0'' @ [CHR 0x0A] \<and>
   layout 0 [Instruction Scope 0 0 0, Instruction Inc 0 0 0]
     = [(0, ''Scope 0 --> ''), (1, ''Inc 0'')]"
  by (simp add: PrintGenome_def SetGenome_def sample_vm_def InstScope_def Let_def args_def
      show_int_def show_nat.simps size_t_of_int_def inst_text_def)

text \<open>
  C9, amended: for every genome, each line emitted by \<^verbatim>\<open>PrintGenome\<close> is indented by
  exactly one space per current scope depth, where the depth is the \<^verbatim>\<open>cur_scope\<close> that
  \<^verbatim>\<open>PrintGenome\<close> folds from \<^verbatim>\<open>InstScope\<close> across the instruction sequence: the output is
  the rendering of \<open>layout\<close>, whose lines are \<open>d\<close> spaces followed by a text that does not
  begin with a space.
\<close>

theorem C9_one_space_per_scope_depth:
  "PrintGenome s = render (layout 0 (genome s)) \<and>
   list_all (\<lambda>l. snd l \<noteq> [] \<and> hd (snd l) \<noteq> CHR '' '') (layout 0 (genome s))"
  by (simp add: PrintGenome_def PrintGenome_loop_render layout_starts)

text \<open>
  C10. While \<^verbatim>\<open>stacks[s]\<close> holds fewer than \<open>STACK_CAP = 16\<close> entries, \<^verbatim>\<open>Push r s\<close> followed
  by \<^verbatim>\<open>Pop s r\<close> restores the state exactly: the pop returns the value just pushed, so
  \<^verbatim>\<open>regs[r]\<close> and \<^verbatim>\<open>stacks[s]\<close> are as before.
\<close>

theorem C10_push_then_pop_restores_state:
  assumes "0 \<le> r" "r < 16" "0 \<le> st" "st < 16"
    and "length (stacks s (nat st)) < STACK_CAP"
  shows "bindE (ProcessInst (Instruction Push r st x) s) (ProcessInst (Instruction Pop st r y)) = Inr s"
  using assms
  by (simp add: ProcessInst.simps idx_in_range size_t_of_int_small PushStack_def PopStack_def
      at_pos_def REGS_def)

theorem C10_push_then_pop_restores_state_witness:
  "(0::int) \<le> 3 \<and> (3::int) < 16 \<and> (0::int) \<le> 7 \<and> (7::int) < 16 \<and>
   length (stacks sample_vm (nat 7)) < STACK_CAP \<and>
   bindE (ProcessInst (Instruction Push 3 7 0) sample_vm) (ProcessInst (Instruction Pop 7 3 0))
     = Inr sample_vm"
proof -
  have h: "length (stacks sample_vm (nat 7)) < STACK_CAP"
    by (simp add: sample_vm_def STACK_CAP_def)
  from C10_push_then_pop_restores_state [of 3 7 sample_vm 0 0] h show ?thesis by simp
qed

end
